theory Spec2Isabelle
  imports Complex_Main "HOL-Library.Log_Nat"
begin

section \<open>Python strings\<close>

text \<open>
  The program is \<^verbatim>\<open>src/main.py\<close>. Its input is Python text (\<^verbatim>\<open>str\<close>); the model
  takes it as a \<^typ>\<open>string\<close> of ASCII characters (code points below 128), which is
  the alphabet of the notation. The string methods below are the ones the source calls,
  with the character classes they have on ASCII text.
\<close>

definition py_isspace :: "char \<Rightarrow> bool" where
  \<comment> \<open>\<^verbatim>\<open>str.isspace\<close> on ASCII: TAB, LF, VT, FF, CR, FS, GS, RS, US and the space\<close>
  "py_isspace c = (let n = (of_char c :: nat) in (9 \<le> n \<and> n \<le> 13) \<or> (28 \<le> n \<and> n \<le> 32))"

definition py_islinebreak :: "char \<Rightarrow> bool" where
  \<comment> \<open>the line boundaries of \<^verbatim>\<open>str.splitlines\<close> on ASCII: LF, VT, FF, CR, FS, GS, RS\<close>
  "py_islinebreak c = (let n = (of_char c :: nat) in (10 \<le> n \<and> n \<le> 13) \<or> (28 \<le> n \<and> n \<le> 30))"

definition py_isdigit :: "char \<Rightarrow> bool" where
  "py_isdigit c = (let n = (of_char c :: nat) in 48 \<le> n \<and> n \<le> 57)"

definition digit_value :: "char \<Rightarrow> nat" where
  "digit_value c = of_char c - 48"

definition upper_char :: "char \<Rightarrow> char" where
  "upper_char c = (let n = (of_char c :: nat) in if 97 \<le> n \<and> n \<le> 122 then char_of (n - 32) else c)"

definition lower_char :: "char \<Rightarrow> char" where
  "lower_char c = (let n = (of_char c :: nat) in if 65 \<le> n \<and> n \<le> 90 then char_of (n + 32) else c)"

definition py_upper :: "string \<Rightarrow> string" where
  "py_upper s = map upper_char s"

definition py_lower :: "string \<Rightarrow> string" where
  "py_lower s = map lower_char s"

definition py_strip :: "string \<Rightarrow> string" where
  \<comment> \<open>\<^verbatim>\<open>s.strip()\<close>: leading and trailing whitespace removed\<close>
  "py_strip s = rev (dropWhile py_isspace (rev (dropWhile py_isspace s)))"

text \<open>\<^verbatim>\<open>s.split()\<close>: the maximal runs of non-whitespace characters, in order.\<close>

fun split_ws_acc :: "string \<Rightarrow> string \<Rightarrow> string list" where
  "split_ws_acc acc [] = (if acc = [] then [] else [rev acc])"
| "split_ws_acc acc (c # cs) =
     (if py_isspace c
      then (if acc = [] then split_ws_acc [] cs else rev acc # split_ws_acc [] cs)
      else split_ws_acc (c # acc) cs)"

definition py_split :: "string \<Rightarrow> string list" where
  "py_split s = split_ws_acc [] s"

text \<open>\<^verbatim>\<open>s.split(sep)\<close> for a one-character separator: empty pieces are kept.\<close>

fun split_on_acc :: "char \<Rightarrow> string \<Rightarrow> string \<Rightarrow> string list" where
  "split_on_acc sep acc [] = [rev acc]"
| "split_on_acc sep acc (c # cs) =
     (if c = sep then rev acc # split_on_acc sep [] cs else split_on_acc sep (c # acc) cs)"

definition py_split_on :: "char \<Rightarrow> string \<Rightarrow> string list" where
  "py_split_on sep s = split_on_acc sep [] s"

text \<open>
  \<^verbatim>\<open>s.splitlines()\<close>: CR LF is one boundary, and a boundary at the very end opens no
  further (empty) line.
\<close>

fun splitlines_acc :: "string \<Rightarrow> string \<Rightarrow> string list" where
  "splitlines_acc acc [] = (if acc = [] then [] else [rev acc])"
| "splitlines_acc acc [c] = (if py_islinebreak c then [rev acc] else [rev (c # acc)])"
| "splitlines_acc acc (c # d # cs) =
     (if c = CHR 0x0D \<and> d = CHR 0x0A then rev acc # splitlines_acc [] cs
      else if py_islinebreak c then rev acc # splitlines_acc [] (d # cs)
      else splitlines_acc (c # acc) (d # cs))"

definition py_splitlines :: "string \<Rightarrow> string list" where
  "py_splitlines s = splitlines_acc [] s"

section \<open>Errors\<close>

text \<open>
  The exceptions that can leave the functions of the source. Every \<^verbatim>\<open>ValueError\<close>
  carries where it was raised; an \<^verbatim>\<open>except ValueError\<close> catches each of them.
\<close>

datatype value_error =
    InvalidNoteFormat              \<comment> \<open>line 26: the token does not match the pattern\<close>
  | InvalidAfterNormalization      \<comment> \<open>line 49: the spelling is not a key of \<^verbatim>\<open>note_map\<close>\<close>
  | InvalidIntLiteral              \<comment> \<open>\<^verbatim>\<open>int(str)\<close> on a string that is no integer literal\<close>
  | NaNToInteger                   \<comment> \<open>\<^verbatim>\<open>int(float)\<close> on a NaN\<close>

datatype error = ValueError value_error | KeyError | TypeError | OverflowError | ZeroDivisionError

section \<open>The note resolver\<close>

text \<open>The table \<^verbatim>\<open>note_map\<close> (lines 8 to 10).\<close>

definition note_map :: "string \<rightharpoonup> int" where
  "note_map = map_of
     [(''C'', 0), (''C#'', 1), (''D'', 2), (''D#'', 3), (''E'', 4),
      (''F'', 5), (''F#'', 6), (''G'', 7), (''G#'', 8),
      (''A'', 9), (''A#'', 10), (''B'', 11)]"

text \<open>The table \<^verbatim>\<open>flat_to_sharp\<close> (lines 33 to 41), keyed by the pitch letter.\<close>

definition flat_to_sharp :: "char \<rightharpoonup> string" where
  "flat_to_sharp = map_of
     [(CHR ''A'', ''G#''), (CHR ''B'', ''A#''), (CHR ''C'', ''B''), (CHR ''D'', ''C#''),
      (CHR ''E'', ''D#''), (CHR ''F'', ''E''), (CHR ''G'', ''F#'')]"

text \<open>
  The pattern \<^verbatim>\<open>^([A-G])([#B]?)(\d)$\<close> of line 23, matched against a string with no
  line break in it: the three groups, or \<open>None\<close> when \<^verbatim>\<open>re.match\<close> returns no match.
\<close>

definition is_pitch_letter :: "char \<Rightarrow> bool" where
  "is_pitch_letter c = (let n = (of_char c :: nat) in 65 \<le> n \<and> n \<le> 71)"

fun note_pattern :: "string \<Rightarrow> (char \<times> string \<times> char) option" where
  "note_pattern [p, d] =
     (if is_pitch_letter p \<and> py_isdigit d then Some (p, [], d) else None)"
| "note_pattern [p, a, d] =
     (if is_pitch_letter p \<and> (a = CHR ''#'' \<or> a = CHR ''B'') \<and> py_isdigit d
      then Some (p, [a], d) else None)"
| "note_pattern _ = None"

text \<open>
  \<^verbatim>\<open>normalize_note_name\<close> (lines 12 to 51) returns the pair of the pitch spelling and
  the octave; the octave of the rest marker \<^verbatim>\<open>'R'\<close> is \<^verbatim>\<open>None\<close>.
\<close>

definition normalize_note_name :: "string \<Rightarrow> error + (string \<times> int option)" where
  "normalize_note_name note0 =
     (let note = py_upper (py_strip note0) in
      if note = ''R'' \<or> note = ''REST'' then Inr (''R'', None)
      else case note_pattern note of
        None \<Rightarrow> Inl (ValueError InvalidNoteFormat)
      | Some (pitch, accidental, octave_str) \<Rightarrow>
          (let (pitch', accidental') =
                 (if accidental = ''B''
                  then (case flat_to_sharp pitch of Some s \<Rightarrow> s | None \<Rightarrow> [pitch], [])
                  else ([pitch], accidental));
               full_pitch = pitch' @ accidental';
               octave = int (digit_value octave_str)
           in if note_map full_pitch = None then Inl (ValueError InvalidAfterNormalization)
              else Inr (full_pitch, Some octave)))"

text \<open>
  \<^verbatim>\<open>note_to_midi\<close> (lines 53 to 57). The sum \<^verbatim>\<open>12 + note_map[pitch] + 12 * octave\<close>
  reads the table first, so a missing key raises \<^verbatim>\<open>KeyError\<close> before the octave is
  used; an octave \<^verbatim>\<open>None\<close> under a pitch of the table would raise \<^verbatim>\<open>TypeError\<close>.
\<close>

definition note_to_midi :: "string \<Rightarrow> error + int option" where
  "note_to_midi note =
     (if note = ''R'' then Inr None
      else case normalize_note_name note of
        Inl e \<Rightarrow> Inl e
      | Inr (pitch, octave) \<Rightarrow>
          (case note_map pitch of
             None \<Rightarrow> Inl KeyError
           | Some offset \<Rightarrow>
               (case octave of
                  None \<Rightarrow> Inl TypeError
                | Some oct \<Rightarrow> Inr (Some (12 + offset + 12 * oct)))))"

section \<open>Python numbers\<close>

text \<open>
  A Python \<^verbatim>\<open>float\<close> is a binary64 number: a rational that binary64 represents, an
  infinity or a NaN. The sign of zero is not kept (\<^verbatim>\<open>int\<close> maps both zeros to 0).
\<close>

datatype pyfloat = Finite rat | PosInf | NegInf | NaN

definition pow2 :: "int \<Rightarrow> rat" where
  "pow2 k = (if 0 \<le> k then 2 ^ nat k else 1 / 2 ^ nat (- k))"

definition pow10 :: "int \<Rightarrow> rat" where
  "pow10 k = (if 0 \<le> k then 10 ^ nat k else 1 / 10 ^ nat (- k))"

definition round_half_even :: "rat \<Rightarrow> int" where
  \<comment> \<open>the nearest integer, a tie going to the even one (IEEE 754 and Python's \<^verbatim>\<open>round\<close>)\<close>
  "round_half_even x =
     (let f = \<lfloor>x\<rfloor>; r = x - of_int f in
      if r < 1 / 2 then f else if 1 / 2 < r then f + 1 else if even f then f else f + 1)"

definition binary_exponent :: "rat \<Rightarrow> int" where
  \<comment> \<open>for \<open>0 < a\<close>: the \<open>e\<close> with \<open>2 ^ e \<le> a < 2 ^ (e + 1)\<close>\<close>
  "binary_exponent a =
     (let (n, d) = quotient_of a; k = bitlen n - bitlen d in
      if pow2 k \<le> a then k else k - 1)"

definition round_double :: "rat \<Rightarrow> pyfloat" where
  \<comment> \<open>rounding to the nearest binary64 number: 53 significant bits, exponents from
      -1022 (subnormals below it) to 1023, overflow to an infinity\<close>
  "round_double x =
     (if x = 0 then Finite 0
      else let a = \<bar>x\<bar>;
               e = max (binary_exponent a) (- 1022);
               q = pow2 (e - 52);
               y = of_int (round_half_even (a / q)) * q
           in if 0 < y \<and> 1023 < binary_exponent y then (if 0 < x then PosInf else NegInf)
              else Finite (if 0 < x then y else - y))"

definition int_of_digits :: "string \<Rightarrow> int" where
  "int_of_digits ds = foldl (\<lambda>a c. 10 * a + int (digit_value c)) 0 ds"

text \<open>
  Both \<^verbatim>\<open>int(str)\<close> and \<^verbatim>\<open>float(str)\<close> allow one underscore between two digits and
  nowhere else. \<open>prev\<close> is the character before the rest of the string.
\<close>

fun underscores_from :: "char \<Rightarrow> string \<Rightarrow> bool" where
  "underscores_from prev [] = (prev \<noteq> CHR ''_'')"
| "underscores_from prev (c # cs) =
     (if c = CHR ''_'' then py_isdigit prev \<and> underscores_from c cs
      else if prev = CHR ''_'' then py_isdigit c \<and> underscores_from c cs
      else underscores_from c cs)"

definition underscores_ok :: "string \<Rightarrow> bool" where
  "underscores_ok s = underscores_from (CHR 0x00) s"

definition without_underscores :: "string \<Rightarrow> string" where
  "without_underscores s = filter (\<lambda>c. c \<noteq> CHR ''_'') s"

fun take_sign :: "string \<Rightarrow> bool \<times> string" where
  "take_sign [] = (False, [])"
| "take_sign (c # cs) =
     (if c = CHR ''-'' then (True, cs) else if c = CHR ''+'' then (False, cs) else (False, c # cs))"

text \<open>
  \<^verbatim>\<open>int(s)\<close> for a string: an optional sign and decimal digits, white space around
  them allowed; anything else raises \<^verbatim>\<open>ValueError\<close>, and so does a literal of more than
  4300 digits (the interpreter's default limit on the conversion).
\<close>

definition py_int :: "string \<Rightarrow> error + int" where
  "py_int s =
     (let (neg, body) = take_sign (py_strip s); ds = without_underscores body in
      if ds = [] then Inl (ValueError InvalidIntLiteral)
      else if list_all py_isdigit ds \<and> underscores_ok body \<and> length ds \<le> 4300
      then Inr (if neg then - int_of_digits ds else int_of_digits ds)
      else Inl (ValueError InvalidIntLiteral))"

text \<open>
  \<^verbatim>\<open>float(s)\<close> for a string, \<open>None\<close> for its \<^verbatim>\<open>ValueError\<close>: an optional sign, then
  \<^verbatim>\<open>inf\<close>, \<^verbatim>\<open>infinity\<close> or \<^verbatim>\<open>nan\<close> in any letter case, or a decimal number (digits with
  an optional point, at least one digit, an optional exponent), rounded to binary64.
\<close>

fun float_exponent :: "string \<Rightarrow> int option" where
  "float_exponent [] = Some 0"
| "float_exponent (c # cs) =
     (if c = CHR ''e'' \<or> c = CHR ''E''
      then (let (neg, ds) = take_sign cs in
            if ds \<noteq> [] \<and> list_all py_isdigit ds
            then Some (if neg then - int_of_digits ds else int_of_digits ds)
            else None)
      else None)"

fun float_fraction :: "string \<Rightarrow> string \<times> string" where
  \<comment> \<open>the digits after a decimal point, if there is one, and what follows them\<close>
  "float_fraction [] = ([], [])"
| "float_fraction (c # cs) =
     (if c = CHR ''.'' then (takeWhile py_isdigit cs, dropWhile py_isdigit cs) else ([], c # cs))"

definition float_literal :: "string \<Rightarrow> pyfloat option" where
  "float_literal s =
     (let (neg, r) = take_sign s; l = py_lower r in
      if l = ''inf'' \<or> l = ''infinity'' then Some (if neg then NegInf else PosInf)
      else if l = ''nan'' then Some NaN
      else let ip = takeWhile py_isdigit r;
               (fp, r') = float_fraction (dropWhile py_isdigit r)
           in if ip = [] \<and> fp = [] then None
              else case float_exponent r' of
                None \<Rightarrow> None
              | Some ex \<Rightarrow>
                  (let m = of_int (int_of_digits (ip @ fp)) * pow10 (ex - int (length fp))
                   in Some (round_double (if neg then - m else m))))"

definition py_float :: "string \<Rightarrow> pyfloat option" where
  "py_float s =
     (if underscores_ok s then float_literal (py_strip (without_underscores s)) else None)"

text \<open>
  \<^verbatim>\<open>n * x\<close> for an integer \<open>n\<close> that binary64 represents exactly (as 480 is) and a
  float \<open>x\<close>: the product rounded once.
\<close>

definition float_mul_int :: "int \<Rightarrow> pyfloat \<Rightarrow> pyfloat" where
  "float_mul_int n x =
     (case x of
        Finite r \<Rightarrow> round_double (of_int n * r)
      | PosInf \<Rightarrow> (if 0 < n then PosInf else if n < 0 then NegInf else NaN)
      | NegInf \<Rightarrow> (if 0 < n then NegInf else if n < 0 then PosInf else NaN)
      | NaN \<Rightarrow> NaN)"

text \<open>\<^verbatim>\<open>int(x)\<close> for a float: the fraction is cut off, towards zero.\<close>

definition py_int_of_float :: "pyfloat \<Rightarrow> error + int" where
  "py_int_of_float x =
     (case x of
        Finite r \<Rightarrow> Inr (if 0 \<le> r then \<lfloor>r\<rfloor> else \<lceil>r\<rceil>)
      | PosInf \<Rightarrow> Inl OverflowError
      | NegInf \<Rightarrow> Inl OverflowError
      | NaN \<Rightarrow> Inl (ValueError NaNToInteger))"

section \<open>The sequencer library\<close>

text \<open>
  Modelled from the spec: the message type of the \<^verbatim>\<open>mido\<close> library, which the source
  imports and which is not part of it. A message is a key-down (\<^verbatim>\<open>note_on\<close>: key,
  velocity, delta-time), a key-up (\<^verbatim>\<open>note_off\<close>: key, velocity, delta-time), an
  instrument select (\<^verbatim>\<open>program_change\<close>: program, delta-time) or the tempo meta-event
  of the output contract (\<^verbatim>\<open>set_tempo\<close>: microseconds per beat, delta-time). Keys and
  velocities pass through as they are, uncapped.
\<close>

datatype message =
    ProgramChange int int
  | NoteOn int int int
  | NoteOff int int int
  | SetTempo int int

text \<open>
  Modelled from the spec: the file type of the library, which declares its ticks per
  beat and holds its tracks, each a list of messages.
\<close>

record midifile =
  ticks_per_beat :: int
  tracks :: "message list list"

definition default_ticks_per_beat :: int where
  \<comment> \<open>Modelled from the spec: the resolution of a file created with no argument, 480\<close>
  "default_ticks_per_beat = 480"

definition bpm2tempo :: "int \<Rightarrow> error + int" where
  \<comment> \<open>Modelled from the spec: the library's conversion of beats per minute to
      microseconds per beat, 60000000 over the tempo, to the nearest integer; the
      division raises at the tempo 0\<close>
  "bpm2tempo bpm =
     (if bpm = 0 then Inl ZeroDivisionError
      else Inr (round_half_even (60000000 / of_int bpm)))"

fun is_set_tempo :: "message \<Rightarrow> bool" where
  "is_set_tempo (SetTempo t d) = True"
| "is_set_tempo _ = False"

section \<open>The score compiler\<close>

text \<open>
  The loop of lines 87 to 94: the keys of the tokens that resolve, in order. A
  \<^verbatim>\<open>ValueError\<close> of the resolver is caught and the token gives no key; any other
  exception leaves the loop.
\<close>

definition try_note_to_midi :: "string \<Rightarrow> error + int option" where
  "try_note_to_midi n =
     (case note_to_midi n of
        Inl (ValueError v) \<Rightarrow> Inr None
      | Inl e \<Rightarrow> Inl e
      | Inr midi_note \<Rightarrow> Inr midi_note)"

fun collect_notes :: "string list \<Rightarrow> int list \<Rightarrow> error + int list" where
  "collect_notes [] midi_notes = Inr midi_notes"
| "collect_notes (n # ns) midi_notes =
     (case try_note_to_midi n of
        Inl e \<Rightarrow> Inl e
      | Inr None \<Rightarrow> collect_notes ns midi_notes
      | Inr (Some midi_note) \<Rightarrow> collect_notes ns (midi_notes @ [midi_note]))"

text \<open>The messages that lines 96 to 105 append to the track.\<close>

definition chord_messages :: "int list \<Rightarrow> int \<Rightarrow> int \<Rightarrow> message list" where
  "chord_messages midi_notes velocity duration_ticks =
     (if midi_notes = [] then [NoteOff 0 0 duration_ticks]
      else map (\<lambda>(i, midi_note). NoteOn midi_note velocity 0) (enumerate 0 midi_notes)
         @ map (\<lambda>(i, midi_note). NoteOff midi_note velocity (if i = 0 then duration_ticks else 0))
             (enumerate (0::nat) midi_notes))"

definition duration_ticks_of :: "int \<Rightarrow> pyfloat \<Rightarrow> error + int" where
  \<comment> \<open>line 84: \<^verbatim>\<open>int(ticks_per_beat * duration)\<close>\<close>
  "duration_ticks_of tpb duration = py_int_of_float (float_mul_int tpb duration)"

definition velocity_of :: "string list \<Rightarrow> error + int" where
  \<comment> \<open>line 79: \<^verbatim>\<open>int(parts[2]) if len(parts) > 2 else 64\<close>\<close>
  "velocity_of parts = (if length parts > 2 then py_int (parts ! 2) else Inr 64)"

text \<open>
  One turn of the loop over the lines (lines 68 to 105): the track after the line, or
  the exception that leaves the loop. A \<^verbatim>\<open>continue\<close> returns the track as it is.
\<close>

definition line_step :: "int \<Rightarrow> string \<Rightarrow> message list \<Rightarrow> error + message list" where
  "line_step tpb line track =
     (if py_strip line = [] then Inr track
      else let parts = py_split (py_strip line) in
        if length parts < 2 then Inr track
        else let notes_part = parts ! 0 in
          case py_float (parts ! 1) of
            None \<Rightarrow> Inr track
          | Some duration \<Rightarrow>
              (case velocity_of parts of
                 Inl e \<Rightarrow> Inl e
               | Inr velocity \<Rightarrow>
                   (let notes = map py_strip (py_split_on (CHR '','') notes_part) in
                    case duration_ticks_of tpb duration of
                      Inl e \<Rightarrow> Inl e
                    | Inr duration_ticks \<Rightarrow>
                        (case collect_notes notes [] of
                           Inl e \<Rightarrow> Inl e
                         | Inr midi_notes \<Rightarrow>
                             Inr (track @ chord_messages midi_notes velocity duration_ticks)))))"

fun compile_lines :: "int \<Rightarrow> string list \<Rightarrow> message list \<Rightarrow> error + message list" where
  "compile_lines tpb [] track = Inr track"
| "compile_lines tpb (line # lines) track =
     (case line_step tpb line track of
        Inl e \<Rightarrow> Inl e
      | Inr track' \<Rightarrow> compile_lines tpb lines track')"

text \<open>
  \<^verbatim>\<open>parse_text_to_midi\<close> (lines 59 to 107). The tempo of line 63 is computed and not
  used again.
\<close>

definition parse_text_to_midi :: "string \<Rightarrow> int \<Rightarrow> error + midifile" where
  "parse_text_to_midi text bpm =
     (case bpm2tempo bpm of
        Inl e \<Rightarrow> Inl e
      | Inr tempo \<Rightarrow>
          (let tpb = default_ticks_per_beat in
           case compile_lines tpb (py_splitlines (py_strip text)) [ProgramChange 0 0] of
             Inl e \<Rightarrow> Inl e
           | Inr track \<Rightarrow> Inr \<lparr>ticks_per_beat = tpb, tracks = [track]\<rparr>))"

section \<open>The grammar and the tables in the words of the specification\<close>

text \<open>
  The grammar of a pitched token as the specification words it: one letter A to G, an
  optional single accidental (\<^verbatim>\<open>#\<close> or \<^verbatim>\<open>B\<close>), one decimal digit. It is compared
  below with the pattern of the source.
\<close>

definition spec_pitched_grammar :: "string \<Rightarrow> bool" where
  "spec_pitched_grammar s =
     (case s of
        [l, d] \<Rightarrow> l \<in> set ''ABCDEFG'' \<and> d \<in> set ''0123456789''
      | [l, a, d] \<Rightarrow> l \<in> set ''ABCDEFG'' \<and> a \<in> set ''#B'' \<and> d \<in> set ''0123456789''
      | _ \<Rightarrow> False)"

text \<open>The enharmonic table as the specification lists it.\<close>

definition spec_enharmonic_table :: "(char \<times> string) list" where
  "spec_enharmonic_table =
     [(CHR ''A'', ''G#''), (CHR ''B'', ''A#''), (CHR ''C'', ''B''), (CHR ''D'', ''C#''),
      (CHR ''E'', ''D#''), (CHR ''F'', ''E''), (CHR ''G'', ''F#'')]"

text \<open>
  The tick length as the specification words it: the product of the ticks per beat and
  the duration, rounded to the nearest tick.
\<close>

definition spec_duration_ticks :: "int \<Rightarrow> pyfloat \<Rightarrow> error + int" where
  "spec_duration_ticks tpb duration =
     (case float_mul_int tpb duration of
        Finite r \<Rightarrow> Inr (round_half_even r)
      | PosInf \<Rightarrow> Inl OverflowError
      | NegInf \<Rightarrow> Inl OverflowError
      | NaN \<Rightarrow> Inl (ValueError NaNToInteger))"

section \<open>Lines that compile\<close>

text \<open>
  A token that spells a rest without being the string \<^verbatim>\<open>R\<close> itself, such as \<^verbatim>\<open>r\<close>,
  \<^verbatim>\<open>REST\<close> or \<^verbatim>\<open>Rest\<close>.
\<close>

definition other_rest_spelling :: "string \<Rightarrow> bool" where
  "other_rest_spelling n =
     (n \<noteq> ''R'' \<and> (py_upper (py_strip n) = ''R'' \<or> py_upper (py_strip n) = ''REST''))"

fun is_finite :: "pyfloat \<Rightarrow> bool" where
  "is_finite (Finite r) = True"
| "is_finite _ = False"

text \<open>
  The lines on which the compiler raises nothing: a line of fewer than two fields or
  with a duration that does not parse (both are skipped), or a line whose duration
  times the ticks per beat is a finite number, whose velocity field is absent or an
  integer literal, and none of whose tokens is a rest spelling other than \<^verbatim>\<open>R\<close>.
\<close>

definition line_compiles :: "int \<Rightarrow> string \<Rightarrow> bool" where
  "line_compiles tpb line =
     (let parts = py_split (py_strip line) in
      if length parts < 2 then True
      else case py_float (parts ! 1) of
        None \<Rightarrow> True
      | Some duration \<Rightarrow>
          is_finite (float_mul_int tpb duration) \<and> \<not> isl (velocity_of parts)
          \<and> list_all (\<lambda>n. \<not> other_rest_spelling n)
               (map py_strip (py_split_on (CHR '','') (parts ! 0))))"

section \<open>Facts about characters\<close>

lemma is_pitch_letter_set: "is_pitch_letter c \<longleftrightarrow> c \<in> set ''ABCDEFG''"
proof
  assume "is_pitch_letter c"
  then have "(of_char c :: nat) \<in> {65, 66, 67, 68, 69, 70, 71}"
    unfolding is_pitch_letter_def Let_def by (simp, arith)
  then have "(of_char c :: nat) \<in> of_char ` set ''ABCDEFG''" by simp
  then show "c \<in> set ''ABCDEFG''" by (auto simp del: of_char_Char)
next
  assume "c \<in> set ''ABCDEFG''"
  then show "is_pitch_letter c" by (auto simp: is_pitch_letter_def)
qed

lemma py_isdigit_set: "py_isdigit c \<longleftrightarrow> c \<in> set ''0123456789''"
proof
  assume "py_isdigit c"
  then have "(of_char c :: nat) \<in> {48, 49, 50, 51, 52, 53, 54, 55, 56, 57}"
    unfolding py_isdigit_def Let_def by (simp, arith)
  then have "(of_char c :: nat) \<in> of_char ` set ''0123456789''" by simp
  then show "c \<in> set ''0123456789''" by (auto simp del: of_char_Char)
next
  assume "c \<in> set ''0123456789''"
  then show "py_isdigit c" by (auto simp: py_isdigit_def)
qed

lemma digit_value_le_9: "py_isdigit d \<Longrightarrow> digit_value d \<le> 9"
  by (auto simp: py_isdigit_def digit_value_def Let_def)

lemma digit_facts:
  assumes "py_isdigit d"
  shows "\<not> py_isspace d" and "upper_char d = d" and "d \<noteq> CHR ''#''" and "d \<noteq> CHR ''B''"
  using assms by (auto simp: py_isdigit_set py_isspace_def upper_char_def)

lemma isspace_upper: "py_isspace c \<Longrightarrow> upper_char c = c"
  by (auto simp: py_isspace_def upper_char_def Let_def)

lemma upper_letter_not_space:
  assumes "upper_char c \<in> set ''ABCDEFGRST''"
  shows "\<not> py_isspace c"
proof
  assume "py_isspace c"
  with assms have "py_isspace c \<and> c \<in> set ''ABCDEFGRST''" by (simp add: isspace_upper)
  then show False by (auto simp: py_isspace_def)
qed

section \<open>Facts about the numbers\<close>

text \<open>
  The two roundings of the float model do what their comments say: the integer chosen
  by \<open>round_half_even\<close> is within a half of its argument, and \<open>binary_exponent\<close>
  brackets a positive rational between two consecutive powers of two.
\<close>

lemma round_half_even_nearest: "\<bar>of_int (round_half_even x) - x\<bar> \<le> 1 / 2"
proof -
  define r where "r = x - of_int \<lfloor>x\<rfloor>"
  have r: "0 \<le> r" "r < 1" unfolding r_def by linarith+
  consider "r < 1 / 2" | "1 / 2 < r" | "r = 1 / 2" by linarith
  then show ?thesis
  proof cases
    case 1
    then have "round_half_even x = \<lfloor>x\<rfloor>"
      by (simp add: round_half_even_def Let_def r_def)
    then have "of_int (round_half_even x) - x = - r" by (simp add: r_def)
    then show ?thesis using r 1 by simp
  next
    case 2
    then have "round_half_even x = \<lfloor>x\<rfloor> + 1"
      by (simp add: round_half_even_def Let_def r_def)
    then have "of_int (round_half_even x) - x = 1 - r" by (simp add: r_def)
    then show ?thesis using r 2 by simp
  next
    case 3
    then have "round_half_even x = \<lfloor>x\<rfloor> \<or> round_half_even x = \<lfloor>x\<rfloor> + 1"
      by (simp add: round_half_even_def Let_def r_def)
    then have "of_int (round_half_even x) - x = - r \<or> of_int (round_half_even x) - x = 1 - r"
      by (auto simp: r_def)
    then show ?thesis using 3 by auto
  qed
qed

lemma pow2_power_int: "pow2 k = power_int 2 k"
  by (simp add: pow2_def power_int_def power_one_over)

lemma pow2_pos: "0 < pow2 k"
  by (simp add: pow2_power_int)

lemma pow2_add: "pow2 (i + j) = pow2 i * pow2 j"
  by (simp add: pow2_power_int power_int_add)

lemma of_int_bitlen_bounds:
  assumes "0 < n"
  shows "pow2 (bitlen n - 1) \<le> of_int n" and "of_int n < pow2 (bitlen n)"
proof -
  from bitlen_bounds [OF assms]
  have a: "2 ^ nat (bitlen n - 1) \<le> n" and b: "n < 2 ^ nat (bitlen n)" by auto
  have ge: "1 \<le> bitlen n" using assms by (auto simp: bitlen_alt_def)
  from a have "(of_int (2 ^ nat (bitlen n - 1)) :: rat) \<le> of_int n" by (simp only: of_int_le_iff)
  then show "pow2 (bitlen n - 1) \<le> of_int n" using ge by (simp add: pow2_def)
  from b have "(of_int n :: rat) < of_int (2 ^ nat (bitlen n))" by (simp only: of_int_less_iff)
  then show "of_int n < pow2 (bitlen n)" using ge by (simp add: pow2_def)
qed

lemma binary_exponent_bounds:
  assumes "0 < a"
  shows "pow2 (binary_exponent a) \<le> a \<and> a < pow2 (binary_exponent a + 1)"
proof -
  obtain n d where q: "quotient_of a = (n, d)" by (cases "quotient_of a")
  then have d: "0 < d" and a: "a = of_int n / of_int d"
    using quotient_of_denom_pos quotient_of_div by auto
  from assms a d have n: "0 < n" by (simp add: zero_less_divide_iff)
  define k where "k = bitlen n - bitlen d"
  have dpos: "(0::rat) < of_int d" using d by simp
  have lo: "pow2 (k - 1) \<le> a"
  proof -
    have "pow2 (k - 1) * of_int d \<le> pow2 (k - 1) * pow2 (bitlen d)"
      using of_int_bitlen_bounds(2) [OF d] pow2_pos [of "k - 1"] by (simp add: less_imp_le)
    also have "\<dots> = pow2 (bitlen n - 1)"
      by (simp add: pow2_add [symmetric] k_def)
    also have "\<dots> \<le> of_int n" by (rule of_int_bitlen_bounds(1) [OF n])
    finally show ?thesis using dpos by (simp add: a pos_le_divide_eq)
  qed
  have hi: "a < pow2 (k + 1)"
  proof -
    have "of_int n < pow2 (bitlen n)" by (rule of_int_bitlen_bounds(2) [OF n])
    also have "\<dots> = pow2 (k + 1) * pow2 (bitlen d - 1)"
      by (simp add: pow2_add [symmetric] k_def)
    also have "\<dots> \<le> pow2 (k + 1) * of_int d"
      using of_int_bitlen_bounds(1) [OF d] pow2_pos [of "k + 1"] by simp
    finally show ?thesis using dpos by (simp add: a pos_divide_less_eq)
  qed
  have be: "binary_exponent a = (if pow2 k \<le> a then k else k - 1)"
    by (simp add: binary_exponent_def q k_def Let_def)
  show ?thesis
  proof (cases "pow2 k \<le> a")
    case True
    then show ?thesis using hi be by simp
  next
    case False
    then show ?thesis using lo be by simp
  qed
qed

section \<open>Properties of the note resolver\<close>


lemma note_pattern_grammar: "note_pattern s \<noteq> None \<longleftrightarrow> spec_pitched_grammar s"
proof (cases s rule: note_pattern.cases)
  case (1 p d) then show ?thesis
    by (simp add: spec_pitched_grammar_def is_pitch_letter_set py_isdigit_set)
next
  case (2 p a d) then show ?thesis
    by (simp add: spec_pitched_grammar_def is_pitch_letter_set py_isdigit_set)
qed (simp_all add: spec_pitched_grammar_def)

lemma note_pattern_digit: "note_pattern s = Some (p, a, d) \<Longrightarrow> py_isdigit d"
  by (cases s rule: note_pattern.cases) (auto split: if_splits)

lemma normalize_cases:
  assumes "normalize_note_name tok = Inr (p, oc)"
  shows "(p = ''R'' \<and> oc = None
          \<and> (py_upper (py_strip tok) = ''R'' \<or> py_upper (py_strip tok) = ''REST''))
       \<or> (\<exists>off k. note_map p = Some off \<and> oc = Some k \<and> 0 \<le> k \<and> k \<le> 9)"
  using assms
  by (auto simp: normalize_note_name_def Let_def
           dest!: note_pattern_digit digit_value_le_9
           split: if_splits option.splits prod.splits)

lemma normalize_R: "normalize_note_name ''R'' = Inr (''R'', None)"
  by (simp add: normalize_note_name_def py_upper_def py_strip_def py_isspace_def upper_char_def)

text \<open>
  C8. Every string that is \<^verbatim>\<open>R\<close> or \<^verbatim>\<open>REST\<close> once trimmed and put in upper case resolves
  to the rest marker \<^verbatim>\<open>('R', None)\<close>: not to a pitch and not to an error.
\<close>

theorem rest_spellings_resolve_to_rest:
  "py_upper (py_strip s) = ''R'' \<or> py_upper (py_strip s) = ''REST''
   \<Longrightarrow> normalize_note_name s = Inr (''R'', None)"
  by (auto simp: normalize_note_name_def)

theorem rest_spellings_resolve_to_rest_witness:
  "normalize_note_name ''  rEst '' = Inr (''R'', None) \<and>
   normalize_note_name '' r'' = Inr (''R'', None)"
proof -
  have a: "py_upper (py_strip ''  rEst '') = ''R'' \<or> py_upper (py_strip ''  rEst '') = ''REST''"
    by code_simp
  have b: "py_upper (py_strip '' r'') = ''R'' \<or> py_upper (py_strip '' r'') = ''REST''"
    by code_simp
  show ?thesis
    using rest_spellings_resolve_to_rest [OF a] rest_spellings_resolve_to_rest [OF b] by simp
qed



text \<open>
  C7. A token that, trimmed and in upper case, is neither a rest spelling nor a word of
  the grammar (a letter A to G, an optional \<^verbatim>\<open>#\<close> or \<^verbatim>\<open>B\<close>, one digit) makes the
  resolver raise the \<^verbatim>\<open>ValueError\<close> of line 26, ``Invalid note format''. The rest
  spellings are taken before the grammar is tried (line 19).
\<close>

theorem invalid_token_fails:
  assumes "py_upper (py_strip tok) \<noteq> ''R''" and "py_upper (py_strip tok) \<noteq> ''REST''"
    and "\<not> spec_pitched_grammar (py_upper (py_strip tok))"
  shows "normalize_note_name tok = Inl (ValueError InvalidNoteFormat)"
proof -
  from assms(3) have "note_pattern (py_upper (py_strip tok)) = None"
    using note_pattern_grammar by blast
  with assms(1,2) show ?thesis by (simp add: normalize_note_name_def)
qed

lemma not_rest_not_grammar:
  "py_upper (py_strip ''H4'') \<noteq> ''R''" "py_upper (py_strip ''H4'') \<noteq> ''REST''"
  "\<not> spec_pitched_grammar (py_upper (py_strip ''H4''))"
  "py_upper (py_strip ''C'') \<noteq> ''R''" "py_upper (py_strip ''C'') \<noteq> ''REST''"
  "\<not> spec_pitched_grammar (py_upper (py_strip ''C''))"
  "py_upper (py_strip ''C44'') \<noteq> ''R''" "py_upper (py_strip ''C44'') \<noteq> ''REST''"
  "\<not> spec_pitched_grammar (py_upper (py_strip ''C44''))"
  "py_upper (py_strip ''C#b4'') \<noteq> ''R''" "py_upper (py_strip ''C#b4'') \<noteq> ''REST''"
  "\<not> spec_pitched_grammar (py_upper (py_strip ''C#b4''))"
  by code_simp+

theorem invalid_token_fails_witness:
  "normalize_note_name ''H4'' = Inl (ValueError InvalidNoteFormat) \<and>
   normalize_note_name ''C'' = Inl (ValueError InvalidNoteFormat) \<and>
   normalize_note_name ''C44'' = Inl (ValueError InvalidNoteFormat) \<and>
   normalize_note_name ''C#b4'' = Inl (ValueError InvalidNoteFormat)"
  using invalid_token_fails [of "''H4''"] invalid_token_fails [of "''C''"]
        invalid_token_fails [of "''C44''"] invalid_token_fails [of "''C#b4''"]
        not_rest_not_grammar
  by blast

lemma py_strip_no_space_ends:
  assumes "s \<noteq> []" and "\<not> py_isspace (hd s)" and "\<not> py_isspace (last s)"
  shows "py_strip s = s"
proof -
  from assms(1,2) have a: "dropWhile py_isspace s = s"
    by (cases s) simp_all
  from assms(1,3) have "dropWhile py_isspace (rev s) = rev s"
    by (cases "rev s") (simp_all add: last_rev [symmetric] hd_rev)
  with a show ?thesis by (simp add: py_strip_def)
qed

lemma normalize_flat:
  assumes l: "flat_to_sharp (upper_char l) = Some sharp"
    and b: "b = CHR ''b'' \<or> b = CHR ''B''" and d: "py_isdigit d"
  shows "normalize_note_name [l, b, d] = Inr (sharp, Some (int (digit_value d)))"
proof -
  from l have L: "upper_char l \<in> set ''ABCDEFG''"
    by (auto simp: flat_to_sharp_def split: if_splits)
  then have "upper_char l \<in> set ''ABCDEFGRST''" by auto
  then have "\<not> py_isspace l" by (rule upper_letter_not_space)
  then have strip: "py_strip [l, b, d] = [l, b, d]"
    using digit_facts(1) [OF d] by (simp add: py_strip_no_space_ends)
  have "upper_char (CHR ''b'') = CHR ''B''" by code_simp
  moreover have "upper_char (CHR ''B'') = CHR ''B''" by code_simp
  ultimately have ub: "upper_char b = CHR ''B''" using b by auto
  have up: "py_upper [l, b, d] = [upper_char l, CHR ''B'', d]"
    by (simp add: py_upper_def ub digit_facts(2) [OF d])
  have pat: "note_pattern [upper_char l, CHR ''B'', d] = Some (upper_char l, ''B'', d)"
    using L d by (simp add: is_pitch_letter_set)
  have nm: "note_map sharp \<noteq> None"
    using l by (auto simp: flat_to_sharp_def note_map_def split: if_splits)
  show ?thesis
    using nm by (auto simp: normalize_note_name_def strip up pat l simp del: note_pattern.simps)
qed

lemma normalize_sharp_spelling:
  assumes l: "flat_to_sharp L = Some sharp" and d: "py_isdigit d"
  shows "normalize_note_name (sharp @ [d]) = Inr (sharp, Some (int (digit_value d)))"
proof -
  from l consider "sharp = ''G#''" | "sharp = ''A#''" | "sharp = ''B''" | "sharp = ''C#''"
    | "sharp = ''D#''" | "sharp = ''E''" | "sharp = ''F#''"
    by (auto simp: flat_to_sharp_def split: if_splits)
  then show ?thesis
  proof cases
    case 1 then show ?thesis using d digit_facts [OF d]
      by (simp add: normalize_note_name_def py_strip_no_space_ends py_isspace_def py_upper_def
            upper_char_def is_pitch_letter_def note_map_def)
  next
    case 2 then show ?thesis using d digit_facts [OF d]
      by (simp add: normalize_note_name_def py_strip_no_space_ends py_isspace_def py_upper_def
            upper_char_def is_pitch_letter_def note_map_def)
  next
    case 3 then show ?thesis using d digit_facts [OF d]
      by (simp add: normalize_note_name_def py_strip_no_space_ends py_isspace_def py_upper_def
            upper_char_def is_pitch_letter_def note_map_def)
  next
    case 4 then show ?thesis using d digit_facts [OF d]
      by (simp add: normalize_note_name_def py_strip_no_space_ends py_isspace_def py_upper_def
            upper_char_def is_pitch_letter_def note_map_def)
  next
    case 5 then show ?thesis using d digit_facts [OF d]
      by (simp add: normalize_note_name_def py_strip_no_space_ends py_isspace_def py_upper_def
            upper_char_def is_pitch_letter_def note_map_def)
  next
    case 6 then show ?thesis using d digit_facts [OF d]
      by (simp add: normalize_note_name_def py_strip_no_space_ends py_isspace_def py_upper_def
            upper_char_def is_pitch_letter_def note_map_def)
  next
    case 7 then show ?thesis using d digit_facts [OF d]
      by (simp add: normalize_note_name_def py_strip_no_space_ends py_isspace_def py_upper_def
            upper_char_def is_pitch_letter_def note_map_def)
  qed
qed

lemma flat_to_sharp_spec: "flat_to_sharp = map_of spec_enharmonic_table"
  by (simp add: flat_to_sharp_def spec_enharmonic_table_def)

lemma spec_table_lookup:
  "(L, sharp) \<in> set spec_enharmonic_table \<Longrightarrow> flat_to_sharp L = Some sharp"
  by (auto simp: flat_to_sharp_def spec_enharmonic_table_def)

lemma note_to_midi_normalize:
  "tok \<noteq> ''R'' \<Longrightarrow> normalize_note_name tok = Inr (p, Some k) \<Longrightarrow> note_map p = Some off
   \<Longrightarrow> note_to_midi tok = Inr (Some (12 + off + 12 * k))"
  by (simp add: note_to_midi_def)

text \<open>
  C5. For every pair of the enharmonic table of the specification (A to G#, B to A#,
  C to B, D to C#, E to D#, F to E, G to F#), every octave digit and either letter case,
  the flat spelling resolves to the sharp spelling of the table with the same octave
  digit, the sharp spelling resolves to itself, and \<^verbatim>\<open>note_to_midi\<close> gives the two the
  same key.
\<close>

theorem flat_collapses_to_sharp:
  assumes "(upper_char l, sharp) \<in> set spec_enharmonic_table"
    and "b = CHR ''b'' \<or> b = CHR ''B''" and "py_isdigit d"
  shows "normalize_note_name [l, b, d] = Inr (sharp, Some (int (digit_value d)))
       \<and> normalize_note_name [l, b, d] = normalize_note_name (sharp @ [d])
       \<and> note_to_midi [l, b, d] = note_to_midi (sharp @ [d])
       \<and> (\<exists>key. note_to_midi [l, b, d] = Inr (Some key))"
proof -
  have fs: "flat_to_sharp (upper_char l) = Some sharp"
    using assms(1) by (rule spec_table_lookup)
  have f: "normalize_note_name [l, b, d] = Inr (sharp, Some (int (digit_value d)))"
    using fs assms(2,3) by (rule normalize_flat)
  have s: "normalize_note_name (sharp @ [d]) = Inr (sharp, Some (int (digit_value d)))"
    using fs assms(3) by (rule normalize_sharp_spelling)
  from normalize_cases [OF f] obtain off where off: "note_map sharp = Some off" by auto
  have "sharp @ [d] \<noteq> ''R''"
    using s normalize_R by auto
  then have ks: "note_to_midi (sharp @ [d]) = Inr (Some (12 + off + 12 * int (digit_value d)))"
    using s off by (rule note_to_midi_normalize)
  have "[l, b, d] \<noteq> ''R''" by simp
  then have kf: "note_to_midi [l, b, d] = Inr (Some (12 + off + 12 * int (digit_value d)))"
    using f off by (rule note_to_midi_normalize)
  show ?thesis using f s ks kf by simp
qed

theorem flat_collapses_to_sharp_witness:
  "normalize_note_name ''Db4'' = Inr (''C#'', Some 4)
   \<and> normalize_note_name ''Db4'' = normalize_note_name ''C#4''
   \<and> note_to_midi ''Db4'' = note_to_midi ''C#4''
   \<and> (\<exists>key. note_to_midi ''Db4'' = Inr (Some key))"
proof -
  have a: "(upper_char (CHR ''D''), ''C#'') \<in> set spec_enharmonic_table"
    by (simp add: spec_enharmonic_table_def upper_char_def)
  have b: "CHR ''b'' = CHR ''b'' \<or> CHR ''b'' = CHR ''B''" by simp
  have c: "py_isdigit (CHR ''4'')" by (simp add: py_isdigit_def)
  have d: "int (digit_value (CHR ''4'')) = 4" by (simp add: digit_value_def)
  have e: "''C#'' @ [CHR ''4''] = ''C#4''" by simp
  show ?thesis
    using flat_collapses_to_sharp [OF a b c] unfolding d e .
qed

section \<open>Properties of the score compiler\<close>

lemma py_split_Nil: "py_split [] = []"
  by (simp add: py_split_def)

lemma note_on_enumerate:
  "map (\<lambda>(i, midi_note). NoteOn midi_note velocity 0) (enumerate n keys)
   = map (\<lambda>k. NoteOn k velocity 0) keys"
  by (induction keys arbitrary: n) simp_all

lemma note_off_enumerate_Suc:
  "map (\<lambda>(i, midi_note). NoteOff midi_note velocity (if i = 0 then ticks else 0))
       (enumerate (Suc n) keys)
   = map (\<lambda>k. NoteOff k velocity 0) keys"
  by (induction keys arbitrary: n) simp_all

lemma chord_messages_Cons:
  "chord_messages (k # keys) velocity ticks
   = map (\<lambda>k. NoteOn k velocity 0) (k # keys)
     @ NoteOff k velocity ticks # map (\<lambda>k. NoteOff k velocity 0) keys"
  by (simp add: chord_messages_def note_on_enumerate note_off_enumerate_Suc)

lemma line_step_fields:
  assumes "py_split (py_strip line) = notes_part # dur # others"
    and "py_float dur = Some duration"
    and "velocity_of (notes_part # dur # others) = Inr velocity"
    and "duration_ticks_of tpb duration = Inr ticks"
    and "collect_notes (map py_strip (py_split_on (CHR '','') notes_part)) [] = Inr keys"
  shows "line_step tpb line track = Inr (track @ chord_messages keys velocity ticks)"
proof -
  from assms(1) have "py_strip line \<noteq> []"
    using py_split_Nil by auto
  then show ?thesis
    using assms by (simp add: line_step_def)
qed

text \<open>
  C2. A line with at least two fields, a duration that parses, a velocity that parses
  (or none) and a chord that resolves to the keys \<open>keys\<close>, at least one, appends to the
  track one key-down per key, each with delta-time 0 and the line's velocity, and then
  one key-up per key, the first with the duration in ticks and the others with
  delta-time 0.
\<close>

theorem chord_line_messages:
  assumes "py_split (py_strip line) = notes_part # dur # others"
    and "py_float dur = Some duration"
    and "velocity_of (notes_part # dur # others) = Inr velocity"
    and "duration_ticks_of tpb duration = Inr ticks"
    and "collect_notes (map py_strip (py_split_on (CHR '','') notes_part)) [] = Inr keys"
    and "keys \<noteq> []"
  shows "line_step tpb line track
         = Inr (track @ map (\<lambda>k. NoteOn k velocity 0) keys
                      @ NoteOff (hd keys) velocity ticks
                      # map (\<lambda>k. NoteOff k velocity 0) (tl keys))"
proof -
  from assms(6) obtain k ks where "keys = k # ks" by (cases keys) auto
  then show ?thesis
    using line_step_fields [OF assms(1-5)] by (simp add: chord_messages_Cons)
qed

theorem chord_line_messages_witness:
  "line_step 480 ''C4,E4,G4 2.0 100'' []
   = Inr [NoteOn 60 100 0, NoteOn 64 100 0, NoteOn 67 100 0,
          NoteOff 60 100 960, NoteOff 64 100 0, NoteOff 67 100 0]"
proof -
  have a: "py_split (py_strip ''C4,E4,G4 2.0 100'') = ''C4,E4,G4'' # ''2.0'' # [''100'']"
    by code_simp
  have b: "py_float ''2.0'' = Some (Finite 2)"
    by code_simp
  have c: "velocity_of (''C4,E4,G4'' # ''2.0'' # [''100'']) = Inr 100"
    by code_simp
  have d: "duration_ticks_of 480 (Finite 2) = Inr 960"
    by code_simp
  have e: "collect_notes (map py_strip (py_split_on (CHR '','') ''C4,E4,G4'')) [] = Inr [60, 64, 67]"
    by code_simp
  have f: "[60, 64, 67] \<noteq> ([] :: int list)"
    by simp
  show ?thesis
    using chord_line_messages [OF a b c d e f, of "[]"] by simp
qed



text \<open>
  C4, as the code has it. The tick length of a duration is the floating-point product of
  the ticks per beat and the duration with its fraction cut off, not rounded to the
  nearest tick: whenever the product is a finite number \<open>y\<close>, the length \<open>t\<close> is the
  integer of the sign of \<open>y\<close> with \<open>\<bar>t\<bar> \<le> \<bar>y\<bar> < \<bar>t\<bar> + 1\<close>.
\<close>

theorem duration_ticks_truncates:
  assumes "float_mul_int tpb duration = Finite y"
  shows "\<exists>t. duration_ticks_of tpb duration = Inr t
           \<and> \<bar>of_int t\<bar> \<le> \<bar>y\<bar> \<and> \<bar>y\<bar> < \<bar>of_int t\<bar> + 1 \<and> 0 \<le> of_int t * y"
proof (cases "0 \<le> y")
  case True
  have t: "duration_ticks_of tpb duration = Inr \<lfloor>y\<rfloor>"
    using assms True by (simp add: duration_ticks_of_def py_int_of_float_def)
  have nn: "(0::rat) \<le> of_int \<lfloor>y\<rfloor>" using True by simp
  have lo: "of_int \<lfloor>y\<rfloor> \<le> y" and hi: "y < of_int \<lfloor>y\<rfloor> + 1" by linarith+
  have "\<bar>of_int \<lfloor>y\<rfloor>\<bar> \<le> \<bar>y\<bar>" "\<bar>y\<bar> < \<bar>of_int \<lfloor>y\<rfloor>\<bar> + 1"
    using nn lo hi True by (simp_all add: abs_of_nonneg)
  moreover have "0 \<le> of_int \<lfloor>y\<rfloor> * y" using nn True by (rule mult_nonneg_nonneg)
  ultimately show ?thesis using t by blast
next
  case False
  have t: "duration_ticks_of tpb duration = Inr \<lceil>y\<rceil>"
    using assms False by (simp add: duration_ticks_of_def py_int_of_float_def)
  have "\<lceil>y\<rceil> \<le> 0" using False by (simp add: ceiling_le_zero)
  then have np: "of_int \<lceil>y\<rceil> \<le> (0::rat)" by simp
  have y0: "y \<le> 0" using False by simp
  have lo: "y \<le> of_int \<lceil>y\<rceil>" and hi: "of_int \<lceil>y\<rceil> < y + 1" by linarith+
  have "\<bar>of_int \<lceil>y\<rceil>\<bar> \<le> \<bar>y\<bar>" "\<bar>y\<bar> < \<bar>of_int \<lceil>y\<rceil>\<bar> + 1"
    using np y0 lo hi by (simp_all add: abs_of_nonpos)
  moreover have "0 \<le> of_int \<lceil>y\<rceil> * y" using np y0 by (rule mult_nonpos_nonpos)
  ultimately show ?thesis using t by blast
qed

theorem duration_ticks_truncates_witness:
  "\<exists>t. duration_ticks_of 480 (Finite (1 / 256)) = Inr t
       \<and> \<bar>of_int t\<bar> \<le> \<bar>15 / 8 :: rat\<bar> \<and> \<bar>15 / 8 :: rat\<bar> < \<bar>of_int t\<bar> + 1
       \<and> 0 \<le> of_int t * (15 / 8 :: rat)"
proof -
  have a: "float_mul_int 480 (Finite (1 / 256)) = Finite (15 / 8)"
    by code_simp
  show ?thesis
    using duration_ticks_truncates [OF a] .
qed

theorem round_to_nearest_counterexample:
  "map_option (duration_ticks_of default_ticks_per_beat) (py_float ''0.999'') = Some (Inr 479)
   \<and> map_option (spec_duration_ticks default_ticks_per_beat) (py_float ''0.999'') = Some (Inr 480)
   \<and> line_step default_ticks_per_beat ''C4 0.999'' [] = Inr [NoteOn 60 64 0, NoteOff 60 64 479]"
  by code_simp


section \<open>Exceptions that leave the compiler\<close>

lemma note_map_R: "note_map ''R'' = None"
  by (simp add: note_map_def)

lemma normalize_error:
  "normalize_note_name n = Inl e \<Longrightarrow> \<exists>v. e = ValueError v"
  by (auto simp: normalize_note_name_def Let_def split: if_splits option.splits prod.splits)

lemma note_to_midi_rest_spelling:
  assumes "other_rest_spelling n"
  shows "note_to_midi n = Inl KeyError"
proof -
  from assms have "n \<noteq> ''R''" and "normalize_note_name n = Inr (''R'', None)"
    by (auto simp: other_rest_spelling_def normalize_note_name_def)
  then show ?thesis by (simp add: note_to_midi_def note_map_R)
qed

lemma note_to_midi_error:
  assumes "note_to_midi n = Inl e"
  shows "(\<exists>v. e = ValueError v) \<or> (e = KeyError \<and> other_rest_spelling n)"
proof (cases "normalize_note_name n")
  case (Inl e')
  with assms have "e = e'" by (auto simp: note_to_midi_def split: if_splits)
  with Inl normalize_error show ?thesis by blast
next
  case (Inr r)
  obtain p oc where r: "r = (p, oc)" by (cases r)
  from assms have nR: "n \<noteq> ''R''" by (auto simp: note_to_midi_def split: if_splits)
  from normalize_cases [OF Inr [unfolded r]] show ?thesis
  proof
    assume "p = ''R'' \<and> oc = None
            \<and> (py_upper (py_strip n) = ''R'' \<or> py_upper (py_strip n) = ''REST'')"
    then have "other_rest_spelling n" using nR by (simp add: other_rest_spelling_def)
    then show ?thesis using assms note_to_midi_rest_spelling by auto
  next
    assume "\<exists>off k. note_map p = Some off \<and> oc = Some k \<and> 0 \<le> k \<and> k \<le> 9"
    then show ?thesis using assms Inr r nR by (auto simp: note_to_midi_def)
  qed
qed

lemma try_note_to_midi_error:
  "try_note_to_midi n = Inl e \<Longrightarrow> e = KeyError \<and> other_rest_spelling n"
  using note_to_midi_error [of n]
  by (auto simp: try_note_to_midi_def split: sum.splits error.splits)

lemma try_note_to_midi_rest_spelling:
  "other_rest_spelling n \<Longrightarrow> try_note_to_midi n = Inl KeyError"
  by (simp add: try_note_to_midi_def note_to_midi_rest_spelling)

lemma collect_notes_ok:
  "list_all (\<lambda>n. \<not> other_rest_spelling n) ns \<Longrightarrow> \<exists>keys. collect_notes ns acc = Inr keys"
proof (induction ns arbitrary: acc)
  case Nil
  then show ?case by simp
next
  case (Cons n ns)
  then have "\<not> other_rest_spelling n" by simp
  then obtain r where "try_note_to_midi n = Inr r"
    using try_note_to_midi_error [of n] by (cases "try_note_to_midi n") auto
  then show ?case using Cons by (cases r) auto
qed

lemma collect_notes_key_error:
  "n \<in> set ns \<Longrightarrow> other_rest_spelling n \<Longrightarrow> collect_notes ns acc = Inl KeyError"
proof (induction ns arbitrary: acc)
  case Nil
  then show ?case by simp
next
  case (Cons m ns)
  show ?case
  proof (cases "try_note_to_midi m")
    case (Inl e)
    then show ?thesis using try_note_to_midi_error [of m e] by simp
  next
    case (Inr r)
    then have "\<not> other_rest_spelling m"
      using try_note_to_midi_rest_spelling [of m] by auto
    with Cons.prems have "n \<in> set ns" by auto
    then show ?thesis using Cons.IH Cons.prems(2) Inr by (cases r) auto
  qed
qed

lemma duration_ticks_finite:
  "is_finite (float_mul_int tpb duration) \<Longrightarrow> \<exists>t. duration_ticks_of tpb duration = Inr t"
  by (cases "float_mul_int tpb duration")
     (simp_all add: duration_ticks_of_def py_int_of_float_def)

lemma line_step_ok:
  assumes "line_compiles tpb line"
  shows "\<exists>msgs. line_step tpb line track = Inr (track @ msgs)"
proof (cases "py_strip line = [] \<or> length (py_split (py_strip line)) < 2")
  case True
  then show ?thesis by (auto simp: line_step_def Let_def)
next
  case False
  show ?thesis
  proof (cases "py_float (py_split (py_strip line) ! 1)")
    case None
    then show ?thesis using False by (auto simp: line_step_def Let_def)
  next
    case (Some duration)
    from assms False Some have fin: "is_finite (float_mul_int tpb duration)"
      and vel: "\<not> isl (velocity_of (py_split (py_strip line)))"
      and toks: "list_all (\<lambda>n. \<not> other_rest_spelling n)
                   (map py_strip (py_split_on (CHR '','') (py_split (py_strip line) ! 0)))"
      by (auto simp: line_compiles_def Let_def)
    from duration_ticks_finite [OF fin] obtain t
      where t: "duration_ticks_of tpb duration = Inr t" by blast
    from vel obtain v where v: "velocity_of (py_split (py_strip line)) = Inr v"
      by (cases "velocity_of (py_split (py_strip line))") auto
    from collect_notes_ok [OF toks] obtain keys
      where k: "collect_notes (map py_strip (py_split_on (CHR '','') (py_split (py_strip line) ! 0))) []
                = Inr keys" by blast
    show ?thesis using False Some t v k by (simp add: line_step_def Let_def)
  qed
qed

lemma compile_lines_ok:
  "list_all (line_compiles tpb) lines
   \<Longrightarrow> \<exists>msgs. compile_lines tpb lines track = Inr (track @ msgs)"
proof (induction lines arbitrary: track)
  case Nil
  then show ?case by simp
next
  case (Cons line lines)
  then have "line_compiles tpb line" and rest: "list_all (line_compiles tpb) lines" by simp_all
  from line_step_ok [OF this(1)] obtain m1
    where m1: "line_step tpb line track = Inr (track @ m1)" by blast
  from Cons.IH [OF rest, of "track @ m1"] obtain m2
    where "compile_lines tpb lines (track @ m1) = Inr ((track @ m1) @ m2)" by blast
  then show ?case using m1 by simp
qed

lemma compile_lines_append:
  "compile_lines tpb (xs @ ys) track
   = (case compile_lines tpb xs track of Inl e \<Rightarrow> Inl e | Inr track' \<Rightarrow> compile_lines tpb ys track')"
  by (induction xs arbitrary: track) (auto split: sum.splits)

lemma line_step_key_error:
  assumes "py_split (py_strip line) = notes_part # dur # others"
    and "py_float dur = Some duration"
    and "is_finite (float_mul_int tpb duration)"
    and "velocity_of (notes_part # dur # others) = Inr velocity"
    and "n \<in> set (map py_strip (py_split_on (CHR '','') notes_part))"
    and "other_rest_spelling n"
  shows "line_step tpb line track = Inl KeyError"
proof -
  from assms(1) have ne: "py_strip line \<noteq> []"
    using py_split_Nil by auto
  from duration_ticks_finite [OF assms(3)] obtain t
    where t: "duration_ticks_of tpb duration = Inr t" by blast
  have "collect_notes (map py_strip (py_split_on (CHR '','') notes_part)) [] = Inl KeyError"
    using assms(5,6) by (rule collect_notes_key_error)
  then show ?thesis
    using ne assms(1,2,4) t by (simp add: line_step_def)
qed

lemma bpm2tempo_ok: "bpm \<noteq> 0 \<Longrightarrow> \<exists>tempo. bpm2tempo bpm = Inr tempo"
  by (simp add: bpm2tempo_def)




text \<open>
  C10. A text with a line of at least two fields, a duration that parses and is finite
  in ticks, a velocity that parses (or none), and a token that spells a rest without
  being the string \<^verbatim>\<open>R\<close> (\<^verbatim>\<open>REST\<close>, \<^verbatim>\<open>rest\<close>, \<^verbatim>\<open>r\<close>) never compiles: the compiler
  raises. When the tempo is not 0 and the lines before that line raise nothing, what it
  raises is the \<^verbatim>\<open>KeyError\<close> of the table lookup in \<^verbatim>\<open>note_to_midi\<close>, which the
  handler of line 91 does not catch.
\<close>

theorem rest_spelling_raises_key_error:
  assumes "py_splitlines (py_strip text) = before @ line # after"
    and "py_split (py_strip line) = notes_part # dur # others"
    and "py_float dur = Some duration"
    and "is_finite (float_mul_int default_ticks_per_beat duration)"
    and "velocity_of (notes_part # dur # others) = Inr velocity"
    and "n \<in> set (map py_strip (py_split_on (CHR '','') notes_part))"
    and "other_rest_spelling n"
  shows "(\<exists>e. parse_text_to_midi text bpm = Inl e)
       \<and> (bpm \<noteq> 0 \<and> list_all (line_compiles default_ticks_per_beat) before
            \<longrightarrow> parse_text_to_midi text bpm = Inl KeyError)"
proof -
  have step: "line_step default_ticks_per_beat line track = Inl KeyError" for track
    using assms(2-7) by (rule line_step_key_error)
  have any: "\<exists>e. compile_lines default_ticks_per_beat (before @ line # after) track = Inl e"
    for track
    by (cases "compile_lines default_ticks_per_beat before track")
       (simp_all add: compile_lines_append step)
  have first: "\<exists>e. parse_text_to_midi text bpm = Inl e"
  proof (cases "bpm2tempo bpm")
    case (Inl e)
    then show ?thesis by (simp add: parse_text_to_midi_def)
  next
    case (Inr tempo)
    from any [of "[ProgramChange 0 0]"] obtain e
      where "compile_lines default_ticks_per_beat (before @ line # after) [ProgramChange 0 0]
             = Inl e" by blast
    then show ?thesis using Inr assms(1) by (simp add: parse_text_to_midi_def)
  qed
  have second: "parse_text_to_midi text bpm = Inl KeyError"
    if "bpm \<noteq> 0" and "list_all (line_compiles default_ticks_per_beat) before"
  proof -
    from bpm2tempo_ok [OF that(1)] obtain tempo where t: "bpm2tempo bpm = Inr tempo" by blast
    from compile_lines_ok [OF that(2), of "[ProgramChange 0 0]"] obtain msgs
      where "compile_lines default_ticks_per_beat before [ProgramChange 0 0]
             = Inr ([ProgramChange 0 0] @ msgs)" by blast
    then have "compile_lines default_ticks_per_beat (before @ line # after) [ProgramChange 0 0]
               = Inl KeyError"
      by (simp add: compile_lines_append step)
    then show ?thesis using t assms(1) by (simp add: parse_text_to_midi_def)
  qed
  from first second show ?thesis by blast
qed

theorem rest_spelling_raises_key_error_witness:
  "parse_text_to_midi (''C4 1.0'' @ [CHR 0x0A] @ ''rest 1.0'' @ [CHR 0x0A] @ ''D4 1.0'') 90
   = Inl KeyError
   \<and> parse_text_to_midi ''REST 1.0'' 90 = Inl KeyError
   \<and> parse_text_to_midi ''r 1.0'' 90 = Inl KeyError"
proof -
  have f: "py_float ''1.0'' = Some (Finite 1)" by code_simp
  have fin: "is_finite (float_mul_int default_ticks_per_beat (Finite 1))" by code_simp
  have bpm: "(90::int) \<noteq> 0" by simp
  have a1: "py_splitlines (py_strip (''C4 1.0'' @ [CHR 0x0A] @ ''rest 1.0'' @ [CHR 0x0A] @ ''D4 1.0''))
            = [''C4 1.0''] @ ''rest 1.0'' # [''D4 1.0'']" by code_simp
  have a2: "py_split (py_strip ''rest 1.0'') = ''rest'' # ''1.0'' # []" by code_simp
  have a5: "velocity_of (''rest'' # ''1.0'' # []) = Inr 64" by code_simp
  have a6: "''rest'' \<in> set (map py_strip (py_split_on (CHR '','') ''rest''))" by code_simp
  have a7: "other_rest_spelling ''rest''" by code_simp
  have a8: "list_all (line_compiles default_ticks_per_beat) [''C4 1.0'']" by code_simp
  have b1: "py_splitlines (py_strip ''REST 1.0'') = [] @ ''REST 1.0'' # []" by code_simp
  have b2: "py_split (py_strip ''REST 1.0'') = ''REST'' # ''1.0'' # []" by code_simp
  have b5: "velocity_of (''REST'' # ''1.0'' # []) = Inr 64" by code_simp
  have b6: "''REST'' \<in> set (map py_strip (py_split_on (CHR '','') ''REST''))" by code_simp
  have b7: "other_rest_spelling ''REST''" by code_simp
  have c1: "py_splitlines (py_strip ''r 1.0'') = [] @ ''r 1.0'' # []" by code_simp
  have c2: "py_split (py_strip ''r 1.0'') = ''r'' # ''1.0'' # []" by code_simp
  have c5: "velocity_of (''r'' # ''1.0'' # []) = Inr 64" by code_simp
  have c6: "''r'' \<in> set (map py_strip (py_split_on (CHR '','') ''r''))" by code_simp
  have c7: "other_rest_spelling ''r''" by code_simp
  have e: "list_all (line_compiles default_ticks_per_beat) []" by simp
  show ?thesis
    using rest_spelling_raises_key_error [OF a1 a2 f fin a5 a6 a7, of 90]
          rest_spelling_raises_key_error [OF b1 b2 f fin b5 b6 b7, of 90]
          rest_spelling_raises_key_error [OF c1 c2 f fin c5 c6 c7, of 90]
          bpm a8 e
    by blast
qed

section \<open>The tempo is not written\<close>

lemma chord_messages_no_tempo:
  "list_all (\<lambda>m. \<not> is_set_tempo m) (chord_messages keys velocity ticks)"
  by (auto simp: chord_messages_def list_all_iff in_set_enumerate_eq)

lemma line_step_no_tempo:
  assumes "line_step tpb line track = Inr track'"
    and "list_all (\<lambda>m. \<not> is_set_tempo m) track"
  shows "list_all (\<lambda>m. \<not> is_set_tempo m) track'"
  using assms chord_messages_no_tempo
  by (auto simp: line_step_def Let_def split: if_splits option.splits sum.splits)

lemma compile_lines_no_tempo:
  "compile_lines tpb lines track = Inr track' \<Longrightarrow> list_all (\<lambda>m. \<not> is_set_tempo m) track
   \<Longrightarrow> list_all (\<lambda>m. \<not> is_set_tempo m) track'"
proof (induction lines arbitrary: track)
  case Nil
  then show ?case by simp
next
  case (Cons line lines)
  then show ?case
    by (auto split: sum.splits dest: line_step_no_tempo)
qed

text \<open>
  C1. Whatever the text and the tempo, a stream that the compiler returns has one track,
  and no message of it is a tempo meta-event: the tempo of line 63 is computed and
  dropped. At the tempo 90 the conversion gives 666667 microseconds per beat, and the
  track of \<^verbatim>\<open>C4 1.0\<close> holds the program change and the two messages of the note.
\<close>

theorem tempo_not_in_track:
  assumes "parse_text_to_midi text bpm = Inr midi"
  shows "\<exists>track. tracks midi = [track] \<and> list_all (\<lambda>m. \<not> is_set_tempo m) track"
proof -
  from assms obtain track
    where c: "compile_lines default_ticks_per_beat (py_splitlines (py_strip text))
                [ProgramChange 0 0] = Inr track"
      and m: "midi = \<lparr>ticks_per_beat = default_ticks_per_beat, tracks = [track]\<rparr>"
    by (auto simp: parse_text_to_midi_def Let_def split: sum.splits)
  have "list_all (\<lambda>m. \<not> is_set_tempo m) [ProgramChange 0 0]" by simp
  with c have "list_all (\<lambda>m. \<not> is_set_tempo m) track" by (rule compile_lines_no_tempo)
  with m show ?thesis by simp
qed

theorem tempo_not_in_track_witness:
  "bpm2tempo 90 = Inr 666667
   \<and> parse_text_to_midi ''C4 1.0'' 90
     = Inr \<lparr>ticks_per_beat = 480,
            tracks = [[ProgramChange 0 0, NoteOn 60 64 0, NoteOff 60 64 480]]\<rparr>
   \<and> (\<exists>track. [[ProgramChange 0 0, NoteOn 60 64 0, NoteOff 60 64 480]] = [track]
               \<and> list_all (\<lambda>m. \<not> is_set_tempo m) track)"
proof -
  have a: "parse_text_to_midi ''C4 1.0'' 90
           = Inr \<lparr>ticks_per_beat = 480,
                  tracks = [[ProgramChange 0 0, NoteOn 60 64 0, NoteOff 60 64 480]]\<rparr>"
    by code_simp
  have b: "bpm2tempo 90 = Inr 666667"
    by code_simp
  show ?thesis
    using tempo_not_in_track [OF a] a b by simp
qed

end
